theory Spec2Isabelle
  imports Complex_Main
begin

section \<open>JavaScript primitives used by the page script\<close>

text \<open>
  The script of \<^verbatim>\<open>src/routes/+page.svelte\<close> works on JavaScript numbers that are
  integers (slider values, array indices, minutes), modelled as \<^typ>\<open>int\<close>, and on
  arrays, modelled as lists. The remainder operator \<^verbatim>\<open>%\<close> truncates towards zero:
  its result has the sign of the dividend.

  A JavaScript number is an IEEE double. Every integer of magnitude at most \<open>2^53\<close>
  (9007199254740992) is a double, and a sum or difference of two such integers is computed
  exactly when the result is again of magnitude at most \<open>2^53\<close>; beyond that the result
  is rounded. The arithmetic on \<^typ>\<open>int\<close> below is the script's arithmetic as long as
  the operands and results stay in that range, which \<open>exact_double\<close> names. The slider
  produces the integers from \<open>-1\<close> to \<open>1440\<close>.
\<close>

definition exact_double :: "int \<Rightarrow> bool" where
  "exact_double x \<longleftrightarrow> - 9007199254740992 \<le> x \<and> x \<le> 9007199254740992"

definition js_rem :: "int \<Rightarrow> int \<Rightarrow> int" where
  "js_rem a b = sgn a * (\<bar>a\<bar> mod \<bar>b\<bar>)"

text \<open>
  \<^verbatim>\<open>Array.prototype.slice(start, end)\<close>: a negative argument counts from the end of
  the array, both arguments are clamped to the array, and an empty array is returned when
  the clamped start is not below the clamped end. It never raises.
\<close>

definition slice :: "'a list \<Rightarrow> int \<Rightarrow> int \<Rightarrow> 'a list" where
  "slice xs start end =
     (let len = int (length xs);
          k = (if start < 0 then max (len + start) 0 else min start len);
          final = (if end < 0 then max (len + end) 0 else min end len)
      in take (nat (final - k)) (drop (nat k) xs))"

text \<open>\<^verbatim>\<open>slice(start)\<close> with the end left out: the end is the length of the array.\<close>

definition slice_from :: "'a list \<Rightarrow> int \<Rightarrow> 'a list" where
  "slice_from xs start = slice xs start (int (length xs))"

section \<open>Window selection: \<^verbatim>\<open>filterByMinute\<close>\<close>

text \<open>
  \<^verbatim>\<open>
  function filterByMinute(tripsByMinute, minute) {
      if (minute === -1) return trips;
      let minMinute = (minute - 60 + 1440) % 1440;
      let maxMinute = (minute + 60) % 1440;
      if (minMinute > maxMinute) {
          let beforeMidnight = tripsByMinute.slice(minMinute);
          let afterMidnight = tripsByMinute.slice(0, maxMinute + 1);
          return beforeMidnight.concat(afterMidnight).flat();
      } else {
          return tripsByMinute.slice(minMinute, maxMinute + 1).flat();
      }
  }
  \<close>
  \<open>minMinute\<close> and \<open>maxMinute\<close> are the two local variables, computed on
  \<^typ>\<open>int\<close>: they are the script's values for every \<open>minute\<close> whose sums
  \<open>minute - 60\<close>, \<open>minute - 60 + 1440\<close> and \<open>minute + 60\<close> are \<open>exact_double\<close>, in
  particular for every slider value. \<open>window_slices\<close> is the
  array of buckets the function has selected just before \<^verbatim>\<open>.flat()\<close>. It is polymorphic
  in the bucket type, so it can be run on the array \<open>[0, 1, ..., 1439]\<close> to read off the
  selected indices.
\<close>

definition minMinute :: "int \<Rightarrow> int" where
  "minMinute minute = js_rem (minute - 60 + 1440) 1440"

definition maxMinute :: "int \<Rightarrow> int" where
  "maxMinute minute = js_rem (minute + 60) 1440"

definition window_slices :: "'a list \<Rightarrow> int \<Rightarrow> 'a list" where
  "window_slices tripsByMinute minute =
     (if minMinute minute > maxMinute minute
      then slice_from tripsByMinute (minMinute minute)
             @ slice tripsByMinute 0 (maxMinute minute + 1)
      else slice tripsByMinute (minMinute minute) (maxMinute minute + 1))"

text \<open>
  The first parameter is the module-level variable \<^verbatim>\<open>trips\<close>, which the function
  reads in its first branch. The function has no \<^verbatim>\<open>throw\<close> and calls only
  \<^verbatim>\<open>slice\<close>, \<^verbatim>\<open>concat\<close> and \<^verbatim>\<open>flat\<close> on an array of arrays, none of which
  raises: it returns an array for every number \<open>minute\<close>.
\<close>

definition filterByMinute :: "'a list \<Rightarrow> 'a list list \<Rightarrow> int \<Rightarrow> 'a list" where
  "filterByMinute trips tripsByMinute minute =
     (if minute = -1 then trips else concat (window_slices tripsByMinute minute))"

text \<open>
  The window as the specification words it, on bucket indices:
  \<open>lo = (m - 60 + 1440) mod 1440\<close>, \<open>hi = (m + 60) mod 1440\<close> with the mathematical
  \<open>mod\<close>; the range \<open>[lo, hi]\<close> when \<open>lo \<le> hi\<close>, otherwise \<open>[lo, 1439]\<close> followed
  by \<open>[0, hi]\<close>.
\<close>

definition spec_lo :: "int \<Rightarrow> nat" where
  "spec_lo m = nat ((m - 60 + 1440) mod 1440)"

definition spec_hi :: "int \<Rightarrow> nat" where
  "spec_hi m = nat ((m + 60) mod 1440)"

definition spec_window :: "int \<Rightarrow> nat list" where
  "spec_window m =
     (if spec_lo m \<le> spec_hi m then [spec_lo m ..< Suc (spec_hi m)]
      else [spec_lo m ..< 1440] @ [0 ..< Suc (spec_hi m)])"

section \<open>Trips, timestamps and the minute of the day\<close>

text \<open>
  A JavaScript \<^verbatim>\<open>Date\<close> holds a time value: an integral number of milliseconds, or
  \<open>NaN\<close> (an invalid date, what \<^verbatim>\<open>new Date(s)\<close> gives for a string it cannot parse).
  \<open>Date t\<close> carries the local time value (the time value shifted by the local time zone
  offset, which is what \<^verbatim>\<open>getHours\<close> and \<^verbatim>\<open>getMinutes\<close> read). On an invalid date
  both return \<open>NaN\<close>, modelled as \<open>None\<close>; arithmetic on \<open>NaN\<close> gives \<open>NaN\<close>.
\<close>

datatype date = Date int | InvalidDate

fun getHours :: "date \<Rightarrow> int option" where
  "getHours (Date t) = Some ((t div 3600000) mod 24)"
| "getHours InvalidDate = None"

fun getMinutes :: "date \<Rightarrow> int option" where
  "getMinutes (Date t) = Some ((t div 60000) mod 60)"
| "getMinutes InvalidDate = None"

text \<open>
  \<^verbatim>\<open>
  function minutesSinceMidnight(date) {
      return date.getHours() * 60 + date.getMinutes();
  }
  \<close>
\<close>

definition minutesSinceMidnight :: "date \<Rightarrow> int option" where
  "minutesSinceMidnight date =
     (case getHours date of
        None \<Rightarrow> None
      | Some h \<Rightarrow> (case getMinutes date of None \<Rightarrow> None | Some m \<Rightarrow> Some (h * 60 + m)))"

text \<open>
  A trip is a row of the traffic file after its two timestamps have been turned into
  dates. A station carries its coordinates, which the script only copies. The station
  fields \<^verbatim>\<open>id\<close>, \<^verbatim>\<open>name\<close>, \<^verbatim>\<open>arrivals\<close> and \<^verbatim>\<open>departures\<close> are named
  \<open>station_id\<close>, \<open>station_name\<close>, \<open>station_arrivals\<close> and \<open>station_departures\<close>
  here, apart from the identity function and from the two maps of the page state.
\<close>

record trip =
  start_station_id :: string
  end_station_id :: string
  started_at :: date
  ended_at :: date

record station =
  station_id :: string
  station_name :: string
  Lat :: real
  Long :: real
  station_arrivals :: nat
  station_departures :: nat
  totalTraffic :: nat

section \<open>Filling the buckets\<close>

datatype js_error = TypeError

text \<open>
  \<^verbatim>\<open>tripsByMinute[index].push(trip)\<close>: reading an array at a number that is not one of
  its indices (\<open>NaN\<close> included) gives \<^verbatim>\<open>undefined\<close>, and calling \<^verbatim>\<open>push\<close> on it
  raises a \<^verbatim>\<open>TypeError\<close>.
\<close>

definition push_at :: "'a list list \<Rightarrow> int option \<Rightarrow> 'a \<Rightarrow> js_error + 'a list list" where
  "push_at tripsByMinute index x =
     (case index of
        None \<Rightarrow> Inl TypeError
      | Some i \<Rightarrow>
          if 0 \<le> i \<and> i < int (length tripsByMinute)
          then Inr (tripsByMinute[nat i := tripsByMinute ! nat i @ [x]])
          else Inl TypeError)"

text \<open>
  The loop of \<^verbatim>\<open>loadStationDemand\<close> over the rows of the file:
  \<^verbatim>\<open>
  for (let trip of trips) {
      let startedMinutes = minutesSinceMidnight(trip.started_at);
      departuresByMinute[startedMinutes].push(trip);
      let endedMinutes = minutesSinceMidnight(trip.ended_at);
      arrivalsByMinute[endedMinutes].push(trip);
  }
  \<close>
  The two bucket arrays are module-level state: the loop takes them and returns them as it
  left them, with the error that stopped it, if any. A trip is pushed on its departure
  bucket before its arrival bucket is looked at.
\<close>

fun bucket_loop ::
  "trip list \<Rightarrow> trip list list \<times> trip list list
     \<Rightarrow> js_error option \<times> (trip list list \<times> trip list list)" where
  "bucket_loop [] (dep, arr) = (None, (dep, arr))"
| "bucket_loop (t # rest) (dep, arr) =
     (case push_at dep (minutesSinceMidnight (started_at t)) t of
        Inl e \<Rightarrow> (Some e, (dep, arr))
      | Inr dep' \<Rightarrow>
          (case push_at arr (minutesSinceMidnight (ended_at t)) t of
             Inl e \<Rightarrow> (Some e, (dep', arr))
           | Inr arr' \<Rightarrow> bucket_loop rest (dep', arr')))"

section \<open>Counting per station: \<^verbatim>\<open>d3.rollup\<close>\<close>

text \<open>
  A JavaScript \<^verbatim>\<open>Map\<close> keeps its keys in insertion order: it is an association list
  with distinct keys, and \<^verbatim>\<open>get\<close> is the lookup. \<^verbatim>\<open>d3.rollup(values, reduce, key)\<close>
  of the d3-array library groups the values by key, each group in the order of the values
  and the groups in the order their keys first occur, then applies \<open>reduce\<close> to each
  group.
\<close>

type_synonym 'v js_map = "(string \<times> 'v) list"

definition map_get :: "'v js_map \<Rightarrow> string \<Rightarrow> 'v option" where
  "map_get m k = map_of m k"

fun group_push :: "'a list js_map \<Rightarrow> string \<Rightarrow> 'a \<Rightarrow> 'a list js_map" where
  "group_push [] k v = [(k, [v])]"
| "group_push ((k', vs) # groups) k v =
     (if k' = k then (k', vs @ [v]) # groups else (k', vs) # group_push groups k v)"

definition d3_group :: "'a list \<Rightarrow> ('a \<Rightarrow> string) \<Rightarrow> 'a list js_map" where
  "d3_group values key = foldl (\<lambda>groups v. group_push groups (key v) v) [] values"

definition d3_rollup :: "'a list \<Rightarrow> ('a list \<Rightarrow> 'b) \<Rightarrow> ('a \<Rightarrow> string) \<Rightarrow> 'b js_map" where
  "d3_rollup values reduce key = map (\<lambda>(k, vs). (k, reduce vs)) (d3_group values key)"

text \<open>The operator \<^verbatim>\<open>??\<close> on the result of \<^verbatim>\<open>get\<close>: the default when the key is absent.\<close>

definition nullish :: "'a option \<Rightarrow> 'a \<Rightarrow> 'a" where
  "nullish v d = (case v of None \<Rightarrow> d | Some x \<Rightarrow> x)"

section \<open>The state of the page and its derived values\<close>

text \<open>
  The module-level variables of the script that the aggregation reads or writes. The
  slider writes \<open>timeFilter\<close>; it starts at \<open>-1\<close>, and the two bucket arrays start as
  1440 empty arrays.
\<close>

record app_state =
  stations :: "station list"
  trips :: "trip list"
  arrivals :: "nat js_map"
  departures :: "nat js_map"
  timeFilter :: int
  departuresByMinute :: "trip list list"
  arrivalsByMinute :: "trip list list"

definition initial_state :: app_state where
  "initial_state =
     \<lparr>stations = [], trips = [], arrivals = [], departures = [], timeFilter = - 1,
      departuresByMinute = replicate 1440 [], arrivalsByMinute = replicate 1440 []\<rparr>"

text \<open>
  \<^verbatim>\<open>
  $: filteredDepartures = timeFilter === -1
      ? departures
      : d3.rollup(filterByMinute(departuresByMinute, timeFilter),
                  v => v.length, d => d.start_station_id);
  \<close>
  and the same for arrivals, with \<^verbatim>\<open>arrivalsByMinute\<close> and \<^verbatim>\<open>end_station_id\<close>.
\<close>

definition filteredDepartures :: "app_state \<Rightarrow> nat js_map" where
  "filteredDepartures s =
     (if timeFilter s = - 1 then departures s
      else d3_rollup (filterByMinute (trips s) (departuresByMinute s) (timeFilter s))
             length start_station_id)"

definition filteredArrivals :: "app_state \<Rightarrow> nat js_map" where
  "filteredArrivals s =
     (if timeFilter s = - 1 then arrivals s
      else d3_rollup (filterByMinute (trips s) (arrivalsByMinute s) (timeFilter s))
             length end_station_id)"

text \<open>
  \<^verbatim>\<open>
  $: filteredStations = stations.map(station => {
      const id = station.id;
      const arr = filteredArrivals.get(id) ?? 0;
      const dep = filteredDepartures.get(id) ?? 0;
      return { ...station, arrivals: arr, departures: dep, totalTraffic: arr + dep };
  });
  \<close>
\<close>

definition traffic_record :: "nat js_map \<Rightarrow> nat js_map \<Rightarrow> station \<Rightarrow> station" where
  "traffic_record arrivalsMap departuresMap st =
     (let arr = nullish (map_get arrivalsMap (station_id st)) 0;
          dep = nullish (map_get departuresMap (station_id st)) 0
      in st\<lparr>station_arrivals := arr, station_departures := dep, totalTraffic := arr + dep\<rparr>)"

definition filteredStations :: "app_state \<Rightarrow> station list" where
  "filteredStations s =
     map (traffic_record (filteredArrivals s) (filteredDepartures s)) (stations s)"

text \<open>
  \<^verbatim>\<open>loadStationDemand\<close>, given the rows of the traffic file: the loop fills the buckets;
  if it ran to its end, \<^verbatim>\<open>trips\<close> is assigned, the two all-day maps are computed by
  \<^verbatim>\<open>d3.rollup\<close> over all trips, and every station gets its all-day counts (the three
  assignments to a station compute the fields that \<open>traffic_record\<close> sets). An error of
  the loop is caught by the function's \<^verbatim>\<open>catch\<close>, which only logs it: the buckets stay
  as the loop left them and nothing else is assigned.
\<close>

definition loadStationDemand :: "trip list \<Rightarrow> app_state \<Rightarrow> app_state" where
  "loadStationDemand rows s =
     (case bucket_loop rows (departuresByMinute s, arrivalsByMinute s) of
        (Some e, (dep, arr)) \<Rightarrow> s\<lparr>departuresByMinute := dep, arrivalsByMinute := arr\<rparr>
      | (None, (dep, arr)) \<Rightarrow>
          (let departures' = d3_rollup rows length start_station_id;
               arrivals' = d3_rollup rows length end_station_id
           in s\<lparr>stations := map (traffic_record arrivals' departures') (stations s),
                trips := rows, arrivals := arrivals', departures := departures',
                departuresByMinute := dep, arrivalsByMinute := arr\<rparr>))"

text \<open>A trip both of whose timestamps are valid dates.\<close>

definition valid_trip :: "trip \<Rightarrow> bool" where
  "valid_trip t \<longleftrightarrow> started_at t \<noteq> InvalidDate \<and> ended_at t \<noteq> InvalidDate"

text \<open>
  What the loop leaves in a bucket array \<open>bs\<close> after the rows: to bucket \<open>i\<close> are
  appended, in order, the rows whose timestamp \<open>stamp\<close> falls in minute \<open>i\<close>.
\<close>

definition pushed :: "(trip \<Rightarrow> date) \<Rightarrow> trip list list \<Rightarrow> trip list \<Rightarrow> trip list list" where
  "pushed stamp bs rows =
     map (\<lambda>i. bs ! i @ filter (\<lambda>t. minutesSinceMidnight (stamp t) = Some (int i)) rows)
       [0..<length bs]"

text \<open>
  The minute slot of a trip for the proofs about the loop: the minute of its timestamp
  \<open>stamp\<close>, or 1440 when the date is invalid.
\<close>

definition minute_slot :: "(trip \<Rightarrow> date) \<Rightarrow> trip \<Rightarrow> nat" where
  "minute_slot stamp t = (case minutesSinceMidnight (stamp t) of None \<Rightarrow> 1440 | Some k \<Rightarrow> nat k)"

section \<open>Sample data\<close>

text \<open>
  A registry of one station, and two trips: 08:30 to 08:40 from station A to station B,
  and 23:50 to 00:10 from a station Z that the registry does not have to station A.
\<close>

definition sample_station :: station where
  "sample_station =
     \<lparr>station_id = ''A'', station_name = ''Alpha'', Lat = 0, Long = 0,
      station_arrivals = 0, station_departures = 0, totalTraffic = 0\<rparr>"

definition sample_trips :: "trip list" where
  "sample_trips =
     [\<lparr>start_station_id = ''A'', end_station_id = ''B'',
       started_at = Date 30600000, ended_at = Date 31200000\<rparr>,
      \<lparr>start_station_id = ''Z'', end_station_id = ''A'',
       started_at = Date 85800000, ended_at = Date 87000000\<rparr>]"

definition sample_state :: app_state where
  "sample_state = initial_state\<lparr>stations := [sample_station]\<rparr>"

text \<open>
  The same state with all-day maps in which station A has 2 arrivals and 3 departures and
  a station B, which the registry does not have, has 7 departures.
\<close>

definition sample_counts_state :: app_state where
  "sample_counts_state =
     sample_state\<lparr>arrivals := [(''A'', 2)], departures := [(''B'', 7), (''A'', 3)]\<rparr>"

section \<open>Properties of the window selection\<close>

lemma js_rem_nonneg: "0 \<le> a \<Longrightarrow> 0 < b \<Longrightarrow> js_rem a b = a mod b"
  by (cases "a = 0") (simp_all add: js_rem_def)

lemma mod1440_wrap:
  assumes "1440 \<le> a" "a < 2880"
  shows "a mod 1440 = a - (1440::int)"
proof -
  have "(a - 1440) mod 1440 = a - 1440"
    by (rule mod_pos_pos_trivial) (use assms in simp_all)
  moreover have "(a - 1440) mod 1440 = a mod 1440"
    by simp
  ultimately show ?thesis by simp
qed

lemma minMinute_mid: "60 \<le> n \<Longrightarrow> n \<le> 1499 \<Longrightarrow> minMinute (int n) = int (n - 60)"
  unfolding minMinute_def by (subst js_rem_nonneg) (simp_all add: mod1440_wrap of_nat_diff)

lemma minMinute_early: "n < 60 \<Longrightarrow> minMinute (int n) = int (n + 1380)"
  unfolding minMinute_def by (subst js_rem_nonneg) simp_all

lemma maxMinute_mid: "n \<le> 1379 \<Longrightarrow> maxMinute (int n) = int (n + 60)"
  unfolding maxMinute_def by (subst js_rem_nonneg) simp_all

lemma maxMinute_late: "1380 \<le> n \<Longrightarrow> n \<le> 2819 \<Longrightarrow> maxMinute (int n) = int (n - 1380)"
  unfolding maxMinute_def by (subst js_rem_nonneg) (simp_all add: mod1440_wrap of_nat_diff)

lemma take_drop_nth_upt:
  assumes "a \<le> b" "b \<le> length xs"
  shows "take (b - a) (drop a xs) = map (nth xs) [a..<b]"
  using assms by (intro nth_equalityI) simp_all

lemma slice_nat:
  assumes "a \<le> b" "b \<le> length xs"
  shows "slice xs (int a) (int b) = map (nth xs) [a..<b]"
proof -
  have "slice xs (int a) (int b) = take (b - a) (drop a xs)"
    using assms by (simp add: slice_def Let_def min_def nat_diff_distrib')
  then show ?thesis
    using assms by (simp add: take_drop_nth_upt)
qed

lemma slice_from_nat:
  assumes "a \<le> length xs"
  shows "slice_from xs (int a) = map (nth xs) [a..<length xs]"
  using slice_nat [OF assms order_refl] by (simp add: slice_from_def)

lemma window_slices_mid:
  assumes "60 \<le> n" "n \<le> 1379" "length bs = 1440"
  shows "window_slices bs (int n) = map (nth bs) [n - 60 ..< Suc (n + 60)]"
proof -
  have lo: "minMinute (int n) = int (n - 60)"
    and hi: "maxMinute (int n) + 1 = int (Suc (n + 60))"
    using assms by (simp_all add: minMinute_mid maxMinute_mid)
  have "\<not> minMinute (int n) > maxMinute (int n)"
    using assms by (simp add: minMinute_mid maxMinute_mid)
  then have "window_slices bs (int n) = slice bs (int (n - 60)) (int (Suc (n + 60)))"
    unfolding window_slices_def by (simp only: lo hi if_False)
  also have "\<dots> = map (nth bs) [n - 60 ..< Suc (n + 60)]"
    by (rule slice_nat) (use assms in simp_all)
  finally show ?thesis .
qed

lemma window_slices_early:
  assumes "n < 60" "length bs = 1440"
  shows "window_slices bs (int n) = map (nth bs) ([n + 1380 ..< 1440] @ [0 ..< Suc (n + 60)])"
proof -
  have lo: "minMinute (int n) = int (n + 1380)"
    and hi: "maxMinute (int n) + 1 = int (Suc (n + 60))"
    using assms by (simp_all add: minMinute_early maxMinute_mid)
  have "minMinute (int n) > maxMinute (int n)"
    using assms by (simp add: minMinute_early maxMinute_mid)
  then have "window_slices bs (int n)
        = slice_from bs (int (n + 1380)) @ slice bs (int 0) (int (Suc (n + 60)))"
    unfolding window_slices_def by (simp only: lo hi if_True of_nat_0)
  also have "slice_from bs (int (n + 1380)) = map (nth bs) [n + 1380 ..< 1440]"
    using slice_from_nat [of "n + 1380" bs] assms by simp
  also have "slice bs (int 0) (int (Suc (n + 60))) = map (nth bs) [0 ..< Suc (n + 60)]"
    by (rule slice_nat) (use assms in simp_all)
  finally show ?thesis by (simp only: map_append)
qed

lemma window_slices_late:
  assumes "1380 \<le> n" "n \<le> 1440" "length bs = 1440"
  shows "window_slices bs (int n) = map (nth bs) ([n - 60 ..< 1440] @ [0 ..< Suc (n - 1380)])"
proof -
  have lo: "minMinute (int n) = int (n - 60)"
    and hi: "maxMinute (int n) + 1 = int (Suc (n - 1380))"
    using assms by (simp_all add: minMinute_mid maxMinute_late)
  have "minMinute (int n) > maxMinute (int n)"
    using assms by (simp add: minMinute_mid maxMinute_late)
  then have "window_slices bs (int n)
        = slice_from bs (int (n - 60)) @ slice bs (int 0) (int (Suc (n - 1380)))"
    unfolding window_slices_def by (simp only: lo hi if_True of_nat_0)
  also have "slice_from bs (int (n - 60)) = map (nth bs) [n - 60 ..< 1440]"
    using slice_from_nat [of "n - 60" bs] assms by simp
  also have "slice bs (int 0) (int (Suc (n - 1380))) = map (nth bs) [0 ..< Suc (n - 1380)]"
    by (rule slice_nat) (use assms in simp_all)
  finally show ?thesis by (simp only: map_append)
qed

lemma spec_bounds_mid:
  assumes "60 \<le> n" "n \<le> 1379"
  shows "spec_lo (int n) = n - 60" "spec_hi (int n) = n + 60"
proof -
  have "(int n - 60 + 1440) mod 1440 = int (n - 60)"
    using assms by (simp add: mod1440_wrap of_nat_diff)
  moreover have "(int n + 60) mod 1440 = int (n + 60)"
    using assms by simp
  ultimately show "spec_lo (int n) = n - 60" "spec_hi (int n) = n + 60"
    unfolding spec_lo_def spec_hi_def by (simp_all only: nat_int)
qed

lemma spec_bounds_early:
  assumes "n < 60"
  shows "spec_lo (int n) = n + 1380" "spec_hi (int n) = n + 60"
proof -
  have "(int n - 60 + 1440) mod 1440 = int (n + 1380)"
    using assms by simp
  moreover have "(int n + 60) mod 1440 = int (n + 60)"
    using assms by simp
  ultimately show "spec_lo (int n) = n + 1380" "spec_hi (int n) = n + 60"
    unfolding spec_lo_def spec_hi_def by (simp_all only: nat_int)
qed

lemma spec_bounds_late:
  assumes "1380 \<le> n" "n \<le> 1439"
  shows "spec_lo (int n) = n - 60" "spec_hi (int n) = n - 1380"
proof -
  have "(int n - 60 + 1440) mod 1440 = int (n - 60)"
    using assms by (simp add: mod1440_wrap of_nat_diff)
  moreover have "(int n + 60) mod 1440 = int (n - 1380)"
    using assms by (simp add: mod1440_wrap of_nat_diff)
  ultimately show "spec_lo (int n) = n - 60" "spec_hi (int n) = n - 1380"
    unfolding spec_lo_def spec_hi_def by (simp_all only: nat_int)
qed

lemma spec_window_mid:
  assumes "60 \<le> n" "n \<le> 1379"
  shows "spec_window (int n) = [n - 60 ..< Suc (n + 60)]"
  using assms by (simp add: spec_window_def spec_bounds_mid)

lemma spec_window_early:
  assumes "n < 60"
  shows "spec_window (int n) = [n + 1380 ..< 1440] @ [0 ..< Suc (n + 60)]"
  using assms by (simp add: spec_window_def spec_bounds_early)

lemma spec_window_late:
  assumes "1380 \<le> n" "n \<le> 1439"
  shows "spec_window (int n) = [n - 60 ..< 1440] @ [0 ..< Suc (n - 1380)]"
  using assms by (simp add: spec_window_def spec_bounds_late)

lemma window_slices_spec_window:
  assumes "0 \<le> m" "m \<le> 1439" "length bs = 1440"
  shows "window_slices bs m = map (nth bs) (spec_window m)"
proof -
  define n where "n = nat m"
  have m: "m = int n" and n: "n \<le> 1439"
    using assms by (simp_all add: n_def)
  consider "n < 60" | "60 \<le> n" "n \<le> 1379" | "1380 \<le> n" by linarith
  then show ?thesis
  proof cases
    case 1
    with assms show ?thesis unfolding m by (simp only: window_slices_early spec_window_early)
  next
    case 2
    with assms show ?thesis unfolding m by (simp only: window_slices_mid spec_window_mid)
  next
    case 3
    with assms n show ?thesis unfolding m
      by (simp only: window_slices_late spec_window_late)
  qed
qed

lemma spec_window_props:
  assumes "0 \<le> m" "m \<le> 1439"
  shows "length (spec_window m) = 121 \<and> distinct (spec_window m)
     \<and> (\<forall>i \<in> set (spec_window m). i < 1440)"
proof -
  define n where "n = nat m"
  have m: "m = int n" and n: "n \<le> 1439"
    using assms by (simp_all add: n_def)
  consider "n < 60" | "60 \<le> n" "n \<le> 1379" | "1380 \<le> n" by linarith
  then show ?thesis
  proof cases
    case 1
    then show ?thesis unfolding m by (auto simp: spec_window_early)
  next
    case 2
    then show ?thesis unfolding m by (auto simp: spec_window_mid)
  next
    case 3
    with n show ?thesis unfolding m by (auto simp: spec_window_late)
  qed
qed

lemma mod1440_nat_wrap: "1440 \<le> a \<Longrightarrow> a < 2880 \<Longrightarrow> a mod 1440 = a - (1440::nat)"
  by (simp add: mod_if)

lemma spec_window_circular:
  assumes "0 \<le> m" "m \<le> 1439"
  shows "spec_window m = map (\<lambda>k. (spec_lo m + k) mod 1440) [0..<121]"
proof -
  define n where "n = nat m"
  have m: "m = int n" and n: "n \<le> 1439"
    using assms by (simp_all add: n_def)
  consider "n < 60" | "60 \<le> n" "n \<le> 1379" | "1380 \<le> n" by linarith
  then show ?thesis
  proof cases
    case 1
    show ?thesis unfolding m spec_window_early [OF 1] spec_bounds_early(1) [OF 1]
    proof (rule nth_equalityI)
      show "length ([n + 1380..<1440] @ [0..<Suc (n + 60)])
            = length (map (\<lambda>k. (n + 1380 + k) mod 1440) [0..<121])"
        using 1 by simp
    next
      fix i assume "i < length ([n + 1380..<1440] @ [0..<Suc (n + 60)])"
      then have i: "i < 121" using 1 by simp
      show "([n + 1380..<1440] @ [0..<Suc (n + 60)]) ! i
            = map (\<lambda>k. (n + 1380 + k) mod 1440) [0..<121] ! i"
      proof (cases "i < 60 - n")
        case True
        then show ?thesis using i 1 by (simp add: nth_append)
      next
        case False
        then have "(n + 1380 + i) mod 1440 = n + 1380 + i - 1440"
          using i 1 by (intro mod1440_nat_wrap) simp_all
        then show ?thesis using False i 1 by (simp add: nth_append)
      qed
    qed
  next
    case 2
    show ?thesis unfolding m spec_window_mid [OF 2] spec_bounds_mid(1) [OF 2]
      using 2 by (intro nth_equalityI) simp_all
  next
    case 3
    have late: "1380 \<le> n" "n \<le> 1439" using 3 n by simp_all
    show ?thesis unfolding m spec_window_late [OF late] spec_bounds_late(1) [OF late]
    proof (rule nth_equalityI)
      show "length ([n - 60..<1440] @ [0..<Suc (n - 1380)])
            = length (map (\<lambda>k. (n - 60 + k) mod 1440) [0..<121])"
        using late by simp
    next
      fix i assume "i < length ([n - 60..<1440] @ [0..<Suc (n - 1380)])"
      then have i: "i < 121" using late by simp
      show "([n - 60..<1440] @ [0..<Suc (n - 1380)]) ! i
            = map (\<lambda>k. (n - 60 + k) mod 1440) [0..<121] ! i"
      proof (cases "i < 1500 - n")
        case True
        then show ?thesis using i late by (simp add: nth_append)
      next
        case False
        then have "(n - 60 + i) mod 1440 = n - 60 + i - 1440"
          using i late by (intro mod1440_nat_wrap) simp_all
        then show ?thesis using False i late by (auto simp add: nth_append add.commute)
      qed
    qed
  qed
qed

lemma minMinute_1440: "minMinute 1440 = minMinute 0" "maxMinute 1440 = maxMinute 0"
  by (simp_all add: minMinute_def maxMinute_def js_rem_def)

lemma window_slices_0:
  assumes "length bs = 1440"
  shows "window_slices bs 0 = map (nth bs) ([1380 ..< 1440] @ [0 ..< 61])"
  using window_slices_early [of 0 bs] assms by simp

lemma window_slices_1439:
  assumes "length bs = 1440"
  shows "window_slices bs 1439 = map (nth bs) ([1379 ..< 1440] @ [0 ..< 60])"
  using window_slices_late [of 1439 bs] assms by simp

lemma map_nth_upt_ident:
  assumes "\<forall>i \<in> set ks. i < n"
  shows "map (nth [0..<n]) ks = ks"
  using assms by (induction ks) simp_all

lemma spec_lo_hi_code:
  assumes "0 \<le> m" "m \<le> 1439"
  shows "minMinute m = int (spec_lo m) \<and> maxMinute m = int (spec_hi m)"
  using assms by (simp add: minMinute_def maxMinute_def js_rem_nonneg spec_lo_def spec_hi_def)

lemma length_identity_array: "length [0..<1440::nat] = 1440"
  by (simp only: length_upt)

lemma filterByMinute_window:
  "minute \<noteq> - 1 \<Longrightarrow> filterByMinute ts bs minute = concat (window_slices bs minute)"
  by (simp add: filterByMinute_def)

lemma identity_window_0:
  "window_slices [0..<1440] 0 = [1380 ..< 1440] @ [0 ..< 61]"
proof -
  have "window_slices [0..<1440::nat] 0 = map (nth [0..<1440]) ([1380 ..< 1440] @ [0 ..< 61])"
    using length_identity_array by (rule window_slices_0)
  also have "\<dots> = [1380 ..< 1440] @ [0 ..< 61]"
    by (rule map_nth_upt_ident) (simp only: set_append set_upt, auto)
  finally show ?thesis .
qed

lemma identity_window_1439:
  "window_slices [0..<1440] 1439 = [1379 ..< 1440] @ [0 ..< 60]"
proof -
  have "window_slices [0..<1440::nat] 1439
        = map (nth [0..<1440]) ([1379 ..< 1440] @ [0 ..< 60])"
    using length_identity_array by (rule window_slices_1439)
  also have "\<dots> = [1379 ..< 1440] @ [0 ..< 60]"
    by (rule map_nth_upt_ident) (simp only: set_append set_upt, auto)
  finally show ?thesis .
qed

lemma minMinute_eq:
  assumes "- 1380 \<le> v"
  shows "minMinute v = (v + 1380) mod 1440"
proof -
  have "v - 60 + 1440 = v + 1380" by linarith
  then have "minMinute v = js_rem (v + 1380) 1440"
    by (simp only: minMinute_def)
  also have "\<dots> = (v + 1380) mod 1440"
    by (rule js_rem_nonneg) (use assms in linarith, linarith)
  finally show ?thesis .
qed

lemma maxMinute_eq:
  assumes "- 60 \<le> v"
  shows "maxMinute v = (v + 60) mod 1440"
  unfolding maxMinute_def by (rule js_rem_nonneg) (use assms in linarith, linarith)

lemma mod1440_range: "0 \<le> (v::int) mod 1440 \<and> v mod 1440 < 1440"
  by (rule conjI [OF pos_mod_sign pos_mod_bound]) linarith+

lemma minMinute_wraps:
  assumes "- 1380 \<le> v"
  shows "minMinute v = minMinute (v mod 1440)"
proof -
  have "minMinute (v mod 1440) = (v mod 1440 + 1380) mod 1440"
    by (rule minMinute_eq) (use mod1440_range [of v] in linarith)
  also have "\<dots> = (v + 1380) mod 1440"
    by (rule mod_add_left_eq)
  also have "\<dots> = minMinute v"
    by (rule minMinute_eq [OF assms, symmetric])
  finally show ?thesis by (rule sym)
qed

lemma maxMinute_wraps:
  assumes "- 60 \<le> v"
  shows "maxMinute v = maxMinute (v mod 1440)"
proof -
  have "maxMinute (v mod 1440) = (v mod 1440 + 60) mod 1440"
    by (rule maxMinute_eq) (use mod1440_range [of v] in linarith)
  also have "\<dots> = (v + 60) mod 1440"
    by (rule mod_add_left_eq)
  also have "\<dots> = maxMinute v"
    by (rule maxMinute_eq [OF assms, symmetric])
  finally show ?thesis by (rule sym)
qed

lemma window_slices_wraps:
  assumes "- 60 \<le> v"
  shows "window_slices bs v = window_slices bs (v mod 1440)"
proof -
  have "minMinute v = minMinute (v mod 1440)"
    by (rule minMinute_wraps) (use assms in linarith)
  moreover have "maxMinute v = maxMinute (v mod 1440)"
    by (rule maxMinute_wraps [OF assms])
  ultimately show ?thesis by (simp only: window_slices_def)
qed

lemma minMinute_range:
  assumes "- 60 \<le> minute"
  shows "0 \<le> minMinute minute \<and> minMinute minute < 1440"
proof -
  have "minMinute minute = (minute + 1380) mod 1440"
    by (rule minMinute_eq) (use assms in linarith)
  then show ?thesis by (simp only: mod1440_range)
qed

lemma maxMinute_range:
  assumes "- 60 \<le> minute"
  shows "0 \<le> maxMinute minute \<and> maxMinute minute < 1440"
proof -
  have "maxMinute minute = (minute + 60) mod 1440"
    by (rule maxMinute_eq) (use assms in linarith)
  then show ?thesis by (simp only: mod1440_range)
qed

lemma identity_window_1500: "window_slices [0..<1440] 1500 = [0..<121]"
proof -
  have a: "(60::nat) - 60 = 0" and b: "Suc (60 + 60) = 121" by simp_all
  have "window_slices [0..<1440::nat] 1500 = window_slices [0..<1440] (1500 mod 1440)"
    by (rule window_slices_wraps) simp
  also have "(1500::int) mod 1440 = int 60" by simp
  also have "window_slices [0..<1440::nat] (int 60)
        = map (nth [0..<1440]) [60 - 60 ..< Suc (60 + 60)]"
    by (rule window_slices_mid [OF _ _ length_identity_array]) simp_all
  also have "\<dots> = map (nth [0..<1440]) [0..<121]"
    by (simp only: a b)
  also have "\<dots> = [0..<121]"
    by (rule map_nth_upt_ident) (simp only: set_upt, auto)
  finally show ?thesis .
qed

section \<open>Properties of the bucket loop\<close>

lemma minutesSinceMidnight_Date:
  "minutesSinceMidnight (Date t) = Some ((t div 3600000) mod 24 * 60 + (t div 60000) mod 60)"
  by (simp add: minutesSinceMidnight_def)

lemma minutesSinceMidnight_bounds:
  assumes "minutesSinceMidnight d = Some i"
  shows "0 \<le> i \<and> i < 1440"
proof (cases d)
  case (Date t)
  define h where "h = (t div 3600000) mod 24"
  define m where "m = (t div 60000) mod 60"
  have "0 \<le> h" "h < 24" "0 \<le> m" "m < 60"
    by (simp_all add: h_def m_def)
  moreover have "i = h * 60 + m"
    using assms Date by (simp add: minutesSinceMidnight_Date h_def m_def)
  ultimately show ?thesis by linarith
next
  case InvalidDate
  with assms show ?thesis by (simp add: minutesSinceMidnight_def)
qed

lemma minutesSinceMidnight_valid:
  assumes "d \<noteq> InvalidDate"
  obtains k where "minutesSinceMidnight d = Some (int k)" "k < 1440"
proof -
  obtain t where "d = Date t" using assms by (cases d) simp_all
  then obtain i where i: "minutesSinceMidnight d = Some i"
    by (simp add: minutesSinceMidnight_Date)
  then have "0 \<le> i" "i < 1440" using minutesSinceMidnight_bounds by blast+
  then have "minutesSinceMidnight d = Some (int (nat i))" "nat i < 1440"
    using i by simp_all
  then show thesis by (rule that)
qed

lemma push_at_in_range:
  "k < length bs \<Longrightarrow> push_at bs (Some (int k)) x = Inr (bs[k := bs ! k @ [x]])"
  by (simp add: push_at_def)

lemma length_pushed: "length (pushed stamp bs rows) = length bs"
  by (simp add: pushed_def)

lemma pushed_Nil: "pushed stamp bs [] = bs"
  by (simp add: pushed_def map_nth)

lemma pushed_Cons:
  assumes "minutesSinceMidnight (stamp t) = Some (int k)" "k < length bs"
  shows "pushed stamp (bs[k := bs ! k @ [t]]) rows = pushed stamp bs (t # rows)"
  unfolding pushed_def using assms
  by (intro nth_equalityI) (simp_all add: nth_list_update)

lemma bucket_loop_valid:
  assumes "\<forall>t \<in> set rows. valid_trip t" "length dep = 1440" "length arr = 1440"
  shows "bucket_loop rows (dep, arr)
         = (None, (pushed started_at dep rows, pushed ended_at arr rows))"
  using assms
proof (induction rows arbitrary: dep arr)
  case Nil
  then show ?case by (simp add: pushed_Nil)
next
  case (Cons t rows)
  from Cons.prems(1) have vt: "started_at t \<noteq> InvalidDate" "ended_at t \<noteq> InvalidDate"
    by (simp_all add: valid_trip_def)
  obtain k where k: "minutesSinceMidnight (started_at t) = Some (int k)" "k < 1440"
    using vt(1) by (rule minutesSinceMidnight_valid)
  obtain j where j: "minutesSinceMidnight (ended_at t) = Some (int j)" "j < 1440"
    using vt(2) by (rule minutesSinceMidnight_valid)
  let ?dep = "dep[k := dep ! k @ [t]]" and ?arr = "arr[j := arr ! j @ [t]]"
  have "bucket_loop (t # rows) (dep, arr) = bucket_loop rows (?dep, ?arr)"
    using k j Cons.prems(2,3) by (simp add: push_at_in_range)
  also have "\<dots> = (None, (pushed started_at ?dep rows, pushed ended_at ?arr rows))"
    using Cons.prems by (intro Cons.IH) simp_all
  also have "pushed started_at ?dep rows = pushed started_at dep (t # rows)"
    using k Cons.prems(2) by (intro pushed_Cons) simp_all
  also have "pushed ended_at ?arr rows = pushed ended_at arr (t # rows)"
    using j Cons.prems(3) by (intro pushed_Cons) simp_all
  finally show ?case .
qed

lemma sum_length_partition:
  assumes "\<forall>x \<in> set xs. f x < n"
  shows "(\<Sum>i\<leftarrow>[0..<n]. length (filter (\<lambda>x. f x = i) xs)) = length xs"
  using assms
proof (induction xs)
  case Nil
  then show ?case by simp
next
  case (Cons x xs)
  have "(\<Sum>i\<leftarrow>[0..<n]. length (filter (\<lambda>y. f y = i) (x # xs)))
        = (\<Sum>i\<leftarrow>[0..<n]. (if i = f x then 1 else 0) + length (filter (\<lambda>y. f y = i) xs))"
    by (intro arg_cong [where f = sum_list] map_cong) auto
  also have "\<dots> = (\<Sum>i\<leftarrow>[0..<n]. if i = f x then 1 else 0)
                   + (\<Sum>i\<leftarrow>[0..<n]. length (filter (\<lambda>y. f y = i) xs))"
    by (simp add: sum_list_addf)
  also have "(\<Sum>i\<leftarrow>[0..<n]. if i = f x then 1 else (0::nat)) = 1"
    using Cons.prems by (simp add: interv_sum_list_conv_sum_set_nat)
  finally show ?case using Cons by simp
qed

text \<open>
  A row whose start timestamp is an invalid date stops the loop with a \<^verbatim>\<open>TypeError\<close>
  before anything is pushed for it.
\<close>

lemma bucket_loop_invalid_start:
  "started_at t = InvalidDate \<Longrightarrow>
   bucket_loop (t # rest) (dep, arr) = (Some TypeError, (dep, arr))"
  by (simp add: minutesSinceMidnight_def push_at_def)

section \<open>Properties of the per-station counts\<close>

lemma map_of_group_push:
  "map_of (group_push g k v)
   = (map_of g)(k \<mapsto> (case map_of g k of None \<Rightarrow> [v] | Some vs \<Rightarrow> vs @ [v]))"
  by (induction g k v rule: group_push.induct) auto

lemma keys_group_push: "map fst (group_push g k v) = (if k \<in> fst ` set g then map fst g else map fst g @ [k])"
  by (induction g k v rule: group_push.induct) auto

lemma distinct_group_push:
  "distinct (map fst g) \<Longrightarrow> distinct (map fst (group_push g k v))"
  by (auto simp: keys_group_push)

lemma total_group_push:
  "(\<Sum>p\<leftarrow>group_push g k v. length (snd p)) = Suc (\<Sum>p\<leftarrow>g. length (snd p))"
  by (induction g k v rule: group_push.induct) auto

lemma map_of_foldl_group_push:
  "map_of (foldl (\<lambda>groups v. group_push groups (key v) v) g xs) k
   = (if filter (\<lambda>x. key x = k) xs = [] then map_of g k
      else Some ((case map_of g k of None \<Rightarrow> [] | Some vs \<Rightarrow> vs) @ filter (\<lambda>x. key x = k) xs))"
proof (induction xs arbitrary: g)
  case Nil
  then show ?case by simp
next
  case (Cons x xs)
  show ?case
    by (simp add: Cons.IH map_of_group_push split: option.split)
qed

lemma distinct_foldl_group_push:
  "distinct (map fst g) \<Longrightarrow> distinct (map fst (foldl (\<lambda>groups v. group_push groups (key v) v) g xs))"
  by (induction xs arbitrary: g) (simp_all add: distinct_group_push)

lemma total_foldl_group_push:
  "(\<Sum>p\<leftarrow>foldl (\<lambda>groups v. group_push groups (key v) v) g xs. length (snd p))
   = (\<Sum>p\<leftarrow>g. length (snd p)) + length xs"
  by (induction xs arbitrary: g) (simp_all add: total_group_push)

lemma map_get_d3_rollup:
  "map_get (d3_rollup xs reduce key) k
   = (if filter (\<lambda>x. key x = k) xs = [] then None
      else Some (reduce (filter (\<lambda>x. key x = k) xs)))"
  by (simp add: map_get_def d3_rollup_def d3_group_def map_of_map map_of_foldl_group_push)

lemma keys_d3_rollup: "distinct (map fst (d3_rollup xs reduce key))"
proof -
  have "map fst (d3_rollup xs reduce key) = map fst (d3_group xs key)"
    by (simp add: d3_rollup_def case_prod_unfold)
  then show ?thesis
    by (simp add: d3_group_def distinct_foldl_group_push)
qed

lemma total_d3_rollup: "sum_list (map snd (d3_rollup xs length key)) = length xs"
proof -
  have "map snd (d3_rollup xs length key) = map (\<lambda>p. length (snd p)) (d3_group xs key)"
    by (simp add: d3_rollup_def case_prod_unfold)
  then show ?thesis
    by (simp add: d3_group_def total_foldl_group_push)
qed

lemma count_concat_partition:
  assumes "\<forall>x \<in> set xs. f x < n"
  shows "length (filter P (concat (map (\<lambda>i. filter (\<lambda>x. f x = i) xs) [0..<n])))
         = length (filter P xs)"
proof -
  have "filter P (concat (map (\<lambda>i. filter (\<lambda>x. f x = i) xs) [0..<n]))
        = concat (map (\<lambda>i. filter (\<lambda>x. f x = i) (filter P xs)) [0..<n])"
    by (simp add: filter_concat comp_def conj_commute)
  then have "length (filter P (concat (map (\<lambda>i. filter (\<lambda>x. f x = i) xs) [0..<n])))
        = (\<Sum>i\<leftarrow>[0..<n]. length (filter (\<lambda>x. f x = i) (filter P xs)))"
    by (simp add: length_concat comp_def)
  also have "\<dots> = length (filter P xs)"
    by (rule sum_length_partition) (use assms in simp)
  finally show ?thesis .
qed

section \<open>Properties of the state operations\<close>

lemma map_nth_replicate:
  assumes "\<forall>i \<in> set ks. i < n"
  shows "map (nth (replicate n x)) ks = replicate (length ks) x"
  using assms by (induction ks) simp_all

lemma concat_replicate_single: "concat (replicate k [x]) = replicate k x"
  by (induction k) simp_all

lemma loadStationDemand_valid:
  assumes "\<forall>t \<in> set rows. valid_trip t"
    "length (departuresByMinute s) = 1440" "length (arrivalsByMinute s) = 1440"
  shows "loadStationDemand rows s
         = s\<lparr>stations := map (traffic_record (d3_rollup rows length end_station_id)
                               (d3_rollup rows length start_station_id)) (stations s),
              trips := rows,
              arrivals := d3_rollup rows length end_station_id,
              departures := d3_rollup rows length start_station_id,
              departuresByMinute := pushed started_at (departuresByMinute s) rows,
              arrivalsByMinute := pushed ended_at (arrivalsByMinute s) rows\<rparr>"
  using assms by (simp add: loadStationDemand_def bucket_loop_valid Let_def)

lemma pushed_empty_nth:
  "i < n \<Longrightarrow> pushed stamp (replicate n []) rows ! i
     = filter (\<lambda>t. minutesSinceMidnight (stamp t) = Some (int i)) rows"
  by (simp add: pushed_def)

lemma minute_slot_iff:
  "i < 1440 \<Longrightarrow> minutesSinceMidnight (stamp t) = Some (int i) \<longleftrightarrow> minute_slot stamp t = i"
  using minutesSinceMidnight_bounds [of "stamp t"]
  by (auto simp: minute_slot_def split: option.splits)

lemma minute_slot_valid: "stamp t \<noteq> InvalidDate \<Longrightarrow> minute_slot stamp t < 1440"
  by (erule minutesSinceMidnight_valid) (simp add: minute_slot_def)

lemma pushed_empty_slots:
  "pushed stamp (replicate 1440 []) rows
   = map (\<lambda>i. filter (\<lambda>t. minute_slot stamp t = i) rows) [0..<1440]"
  unfolding pushed_def
  by (simp only: length_replicate, rule map_cong [OF refl])
     (simp only: set_upt atLeastLessThan_iff, simp add: minute_slot_iff cong: filter_cong)

lemma pushed_empty_total:
  assumes "\<forall>t \<in> set rows. stamp t \<noteq> InvalidDate"
  shows "sum_list (map length (pushed stamp (replicate 1440 []) rows)) = length rows"
proof -
  have "sum_list (map length (pushed stamp (replicate 1440 []) rows))
        = (\<Sum>i\<leftarrow>[0..<1440]. length (filter (\<lambda>t. minute_slot stamp t = i) rows))"
    by (simp only: pushed_empty_slots map_map comp_def)
  also have "\<dots> = length rows"
    by (rule sum_length_partition) (use assms in \<open>simp add: minute_slot_valid\<close>)
  finally show ?thesis .
qed

lemma pushed_empty_count:
  assumes "\<forall>t \<in> set rows. stamp t \<noteq> InvalidDate"
  shows "length (filter P (concat (pushed stamp (replicate 1440 []) rows)))
         = length (filter P rows)"
  unfolding pushed_empty_slots
  by (rule count_concat_partition) (use assms in \<open>simp add: minute_slot_valid\<close>)

lemma pushed_empty_unique:
  assumes "t \<in> set rows" "stamp t \<noteq> InvalidDate"
  shows "\<exists>!i. i < 1440 \<and> t \<in> set (pushed stamp (replicate 1440 []) rows ! i)"
proof -
  have "\<And>i. i < 1440 \<and> t \<in> set (pushed stamp (replicate 1440 []) rows ! i)
          \<longleftrightarrow> i = minute_slot stamp t"
    using assms minute_slot_valid [of stamp t]
    by (auto simp: pushed_empty_nth minute_slot_iff)
  then show ?thesis by simp
qed

lemma loadStationDemand_from_empty:
  assumes "departuresByMinute s = replicate 1440 []" "arrivalsByMinute s = replicate 1440 []"
    "\<forall>t \<in> set rows. valid_trip t"
  shows "trips (loadStationDemand rows s) = rows"
    "departures (loadStationDemand rows s) = d3_rollup rows length start_station_id"
    "arrivals (loadStationDemand rows s) = d3_rollup rows length end_station_id"
    "departuresByMinute (loadStationDemand rows s) = pushed started_at (replicate 1440 []) rows"
    "arrivalsByMinute (loadStationDemand rows s) = pushed ended_at (replicate 1440 []) rows"
    "timeFilter (loadStationDemand rows s) = timeFilter s"
    "map station_id (stations (loadStationDemand rows s)) = map station_id (stations s)"
proof -
  have len: "length (departuresByMinute s) = 1440" "length (arrivalsByMinute s) = 1440"
    using assms(1,2) by simp_all
  note eq = loadStationDemand_valid [OF assms(3) len]
  show "trips (loadStationDemand rows s) = rows"
    "departures (loadStationDemand rows s) = d3_rollup rows length start_station_id"
    "arrivals (loadStationDemand rows s) = d3_rollup rows length end_station_id"
    "timeFilter (loadStationDemand rows s) = timeFilter s"
    by (simp_all add: eq)
  show "departuresByMinute (loadStationDemand rows s)
        = pushed started_at (replicate 1440 []) rows"
    "arrivalsByMinute (loadStationDemand rows s) = pushed ended_at (replicate 1440 []) rows"
    by (simp_all add: eq assms(1,2))
  show "map station_id (stations (loadStationDemand rows s)) = map station_id (stations s)"
    by (simp add: eq traffic_record_def Let_def)
qed

lemma sample_state_buckets:
  "departuresByMinute sample_state = replicate 1440 []"
  "arrivalsByMinute sample_state = replicate 1440 []"
  by (simp_all add: sample_state_def initial_state_def)

lemma sample_trips_valid: "\<forall>t \<in> set sample_trips. valid_trip t"
  by (simp add: sample_trips_def valid_trip_def)

lemma sample_trips_all_valid: "list_all valid_trip sample_trips"
  using sample_trips_valid by (simp only: list_all_iff)

lemma map_get_rollup_count:
  "nullish (map_get (d3_rollup xs length key) k) 0 = length (filter (\<lambda>x. key x = k) xs)"
  by (simp add: map_get_d3_rollup nullish_def)

lemma map_get_rollup_same_counts:
  assumes "\<And>P. length (filter P xs) = length (filter P ys)"
  shows "map_get (d3_rollup xs length key) k = map_get (d3_rollup ys length key) k"
proof -
  have "length (filter (\<lambda>x. key x = k) xs) = length (filter (\<lambda>x. key x = k) ys)"
    by (rule assms)
  moreover from this have "filter (\<lambda>x. key x = k) xs = [] \<longleftrightarrow> filter (\<lambda>x. key x = k) ys = []"
    by (metis length_0_conv)
  ultimately show ?thesis
    by (simp only: map_get_d3_rollup)
qed




lemma sample_state_unfiltered: "timeFilter sample_state = - 1"
  by (simp add: sample_state_def initial_state_def)

section \<open>The claims\<close>

subsection \<open>C1: the window of a center minute\<close>

text \<open>
  Claim C1. For every center minute \<open>m\<close> in \<open>[0, 1439]\<close> and every bucket array of
  length 1440, the two bounds computed by \<^verbatim>\<open>filterByMinute\<close> are the specification's
  \<open>lo = (m - 60 + 1440) mod 1440\<close> and \<open>hi = (m + 60) mod 1440\<close>; the buckets selected
  are those at the indices \<open>[lo, hi]\<close> when \<open>lo \<le> hi\<close>, and otherwise \<open>[lo, 1439]\<close>
  followed by \<open>[0, hi]\<close>, and the function returns their concatenation. These indices
  are 121 in number, pairwise distinct, each below 1440, and they are the 121 consecutive
  slots \<open>lo, lo + 1, ...\<close> taken modulo 1440, so none is missing.
\<close>

theorem window_is_121_distinct_buckets:
  assumes "0 \<le> m" "m \<le> 1439" "length tripsByMinute = 1440"
  shows "minMinute m = int (spec_lo m) \<and> maxMinute m = int (spec_hi m)
     \<and> window_slices tripsByMinute m = map (nth tripsByMinute) (spec_window m)
     \<and> filterByMinute all_trips tripsByMinute m
         = concat (map (nth tripsByMinute) (spec_window m))
     \<and> length (spec_window m) = 121
     \<and> distinct (spec_window m)
     \<and> (\<forall>i \<in> set (spec_window m). i < 1440)
     \<and> spec_window m = map (\<lambda>k. (spec_lo m + k) mod 1440) [0..<121]"
proof -
  have sel: "window_slices tripsByMinute m = map (nth tripsByMinute) (spec_window m)"
    using assms by (rule window_slices_spec_window)
  have "m \<noteq> - 1" using assms by simp
  then have flat: "filterByMinute all_trips tripsByMinute m
      = concat (map (nth tripsByMinute) (spec_window m))"
    by (simp only: filterByMinute_def sel if_False)
  from sel flat spec_lo_hi_code [OF assms(1,2)] spec_window_props [OF assms(1,2)]
    spec_window_circular [OF assms(1,2)]
  show ?thesis
    by (elim conjE) (intro conjI, assumption+)
qed

theorem window_is_121_distinct_buckets_witness:
  "(0::int) \<le> 30 \<and> (30::int) \<le> 1439 \<and> length (map (\<lambda>i. [i]) [0..<1440::nat]) = 1440
   \<and> minMinute 30 = 1410 \<and> maxMinute 30 = 90
   \<and> length (spec_window 30) = 121 \<and> distinct (spec_window 30)
   \<and> filterByMinute [7] (map (\<lambda>i. [i]) [0..<1440]) 30
       = concat (map (nth (map (\<lambda>i. [i]) [0..<1440])) (spec_window 30))"
proof -
  have h: "(0::int) \<le> 30" "(30::int) \<le> 1439"
    "length (map (\<lambda>i. [i]) [0..<1440::nat]) = 1440"
    by (simp_all only: length_map length_upt)
  have lo: "int (spec_lo 30) = 1410" and hi: "int (spec_hi 30) = 90"
    by (simp_all add: spec_lo_def spec_hi_def)
  from h window_is_121_distinct_buckets [OF h, of "[7]"]
  show ?thesis
    unfolding lo hi by (elim conjE) (intro conjI, assumption+)
qed

subsection \<open>C2: the windows at the two ends of the day\<close>

text \<open>
  Claim C2, as the code has it. On a bucket array of length 1440, center minute 0 selects
  the buckets \<open>1380..1439\<close> followed by \<open>0..60\<close>, and center minute 1439 selects the
  buckets \<open>1379..1439\<close> followed by \<open>0..59\<close>: as sets of minutes,
  \<open>{1380..1439} \<union> {0..60}\<close> and \<open>{1379..1439} \<union> {0..59}\<close>.
\<close>

theorem window_at_day_boundaries:
  assumes "length tripsByMinute = 1440"
  shows "filterByMinute all_trips tripsByMinute 0
           = concat (map (nth tripsByMinute) ([1380 ..< 1440] @ [0 ..< 61]))
       \<and> filterByMinute all_trips tripsByMinute 1439
           = concat (map (nth tripsByMinute) ([1379 ..< 1440] @ [0 ..< 60]))
       \<and> set (window_slices [0..<1440] 0) = {1380..1439} \<union> {0..60}
       \<and> set (window_slices [0..<1440] 1439) = {1379..1439} \<union> {0..59}"
proof -
  have "filterByMinute all_trips tripsByMinute 0 = concat (window_slices tripsByMinute 0)"
    by (rule filterByMinute_window) simp
  then have a: "filterByMinute all_trips tripsByMinute 0
           = concat (map (nth tripsByMinute) ([1380 ..< 1440] @ [0 ..< 61]))"
    by (simp only: window_slices_0 [OF assms])
  have "filterByMinute all_trips tripsByMinute 1439
        = concat (window_slices tripsByMinute 1439)"
    by (rule filterByMinute_window) simp
  then have b: "filterByMinute all_trips tripsByMinute 1439
           = concat (map (nth tripsByMinute) ([1379 ..< 1440] @ [0 ..< 60]))"
    by (simp only: window_slices_1439 [OF assms])
  have c: "set (window_slices [0..<1440] 0) = {1380..1439} \<union> {0..60}"
    unfolding identity_window_0 by (simp only: set_append set_upt) auto
  have d: "set (window_slices [0..<1440] 1439) = {1379..1439} \<union> {0..59}"
    unfolding identity_window_1439 by (simp only: set_append set_upt) auto
  from a b c d show ?thesis
    by (intro conjI)
qed

theorem window_at_day_boundaries_witness:
  "length (map (\<lambda>i. [i]) [0..<1440::nat]) = 1440
   \<and> filterByMinute [] (map (\<lambda>i. [i]) [0..<1440::nat]) 1439
       = concat (map (nth (map (\<lambda>i. [i]) [0..<1440])) ([1379 ..< 1440] @ [0 ..< 60]))"
proof -
  have h: "length (map (\<lambda>i. [i]) [0..<1440::nat]) = 1440"
    by (simp only: length_map length_upt)
  from h window_at_day_boundaries [OF h, of "[]"]
  show ?thesis
    by (elim conjE) (intro conjI, assumption+)
qed

text \<open>
  Claim C2 as stated gives \<open>{1379..1439} \<union> {0..60}\<close> for center 1439. Minute 60 is
  not selected there: \<open>(1439 + 60) % 1440\<close> is 59.
\<close>

theorem window_1439_excludes_minute_60:
  "set (window_slices [0..<1440] 1439) \<noteq> {1379..1439} \<union> {0..60}"
proof -
  have "set (window_slices [0..<1440] 1439) = {1379..<1440} \<union> {0..<60}"
    unfolding identity_window_1439 by (simp only: set_append set_upt)
  moreover have "(60::nat) \<notin> {1379..<1440} \<union> {0..<60}" by simp
  moreover have "(60::nat) \<in> {1379..1439} \<union> {0..60}" by simp
  ultimately show ?thesis by metis
qed

subsection \<open>C3: every trip lands in one departure and one arrival bucket\<close>

text \<open>
  Claim C3. Let \<^verbatim>\<open>loadStationDemand\<close> run once on rows with valid timestamps, from
  empty bucket arrays. Then the rows become \<^verbatim>\<open>trips\<close>; departure bucket \<open>i\<close> holds
  exactly the rows whose start timestamp falls in minute \<open>i\<close>, in their order, and
  arrival bucket \<open>i\<close> those whose end timestamp does; so every trip is in exactly one
  departure bucket and exactly one arrival bucket, and the lengths of the 1440 departure
  buckets, and of the 1440 arrival buckets, add up to the number of trips. The station
  ids of the trips play no role: no trip is dropped for an id the registry lacks.
\<close>

theorem every_trip_in_one_bucket_each:
  assumes "departuresByMinute s = replicate 1440 []" "arrivalsByMinute s = replicate 1440 []"
    "\<forall>t \<in> set rows. valid_trip t" "s' = loadStationDemand rows s"
  shows "trips s' = rows
     \<and> length (departuresByMinute s') = 1440 \<and> length (arrivalsByMinute s') = 1440
     \<and> (\<forall>i<1440. departuresByMinute s' ! i
            = filter (\<lambda>t. minutesSinceMidnight (started_at t) = Some (int i)) rows)
     \<and> (\<forall>i<1440. arrivalsByMinute s' ! i
            = filter (\<lambda>t. minutesSinceMidnight (ended_at t) = Some (int i)) rows)
     \<and> (\<forall>t \<in> set rows. \<exists>!i. i < 1440 \<and> t \<in> set (departuresByMinute s' ! i))
     \<and> (\<forall>t \<in> set rows. \<exists>!i. i < 1440 \<and> t \<in> set (arrivalsByMinute s' ! i))
     \<and> sum_list (map length (departuresByMinute s')) = length rows
     \<and> sum_list (map length (arrivalsByMinute s')) = length rows"
proof -
  note ld = loadStationDemand_from_empty [OF assms(1,2,3), folded assms(4)]
  have vs: "\<forall>t \<in> set rows. started_at t \<noteq> InvalidDate"
    and ve: "\<forall>t \<in> set rows. ended_at t \<noteq> InvalidDate"
    using assms(3) by (simp_all add: valid_trip_def)
  show ?thesis
  proof (intro conjI allI impI ballI)
    show "trips s' = rows" by (rule ld)
    show "length (departuresByMinute s') = 1440" "length (arrivalsByMinute s') = 1440"
      by (simp_all add: ld length_pushed)
    show "departuresByMinute s' ! i
            = filter (\<lambda>t. minutesSinceMidnight (started_at t) = Some (int i)) rows"
      if "i < 1440" for i
      using that by (simp only: ld pushed_empty_nth)
    show "arrivalsByMinute s' ! i
            = filter (\<lambda>t. minutesSinceMidnight (ended_at t) = Some (int i)) rows"
      if "i < 1440" for i
      using that by (simp only: ld pushed_empty_nth)
    show "\<exists>!i. i < 1440 \<and> t \<in> set (departuresByMinute s' ! i)" if "t \<in> set rows" for t
      unfolding ld using that vs by (intro pushed_empty_unique) simp_all
    show "\<exists>!i. i < 1440 \<and> t \<in> set (arrivalsByMinute s' ! i)" if "t \<in> set rows" for t
      unfolding ld using that ve by (intro pushed_empty_unique) simp_all
    show "sum_list (map length (departuresByMinute s')) = length rows"
      unfolding ld using vs by (rule pushed_empty_total)
    show "sum_list (map length (arrivalsByMinute s')) = length rows"
      unfolding ld using ve by (rule pushed_empty_total)
  qed
qed

theorem every_trip_in_one_bucket_each_witness:
  "departuresByMinute sample_state = replicate 1440 []
   \<and> arrivalsByMinute sample_state = replicate 1440 []
   \<and> list_all valid_trip sample_trips
   \<and> trips (loadStationDemand sample_trips sample_state) = sample_trips
   \<and> departuresByMinute (loadStationDemand sample_trips sample_state) ! 510
       = [\<lparr>start_station_id = ''A'', end_station_id = ''B'',
           started_at = Date 30600000, ended_at = Date 31200000\<rparr>]
   \<and> arrivalsByMinute (loadStationDemand sample_trips sample_state) ! 10
       = [\<lparr>start_station_id = ''Z'', end_station_id = ''A'',
           started_at = Date 85800000, ended_at = Date 87000000\<rparr>]
   \<and> sum_list (map length (departuresByMinute (loadStationDemand sample_trips sample_state))) = 2
   \<and> sum_list (map length (arrivalsByMinute (loadStationDemand sample_trips sample_state))) = 2"
proof -
  note inst = every_trip_in_one_bucket_each
    [OF sample_state_buckets sample_trips_valid refl]
  have d: "departuresByMinute (loadStationDemand sample_trips sample_state) ! 510
       = filter (\<lambda>t. minutesSinceMidnight (started_at t) = Some (int 510)) sample_trips"
    using inst by simp
  have a: "arrivalsByMinute (loadStationDemand sample_trips sample_state) ! 10
       = filter (\<lambda>t. minutesSinceMidnight (ended_at t) = Some (int 10)) sample_trips"
    using inst by simp
  have len: "length sample_trips = 2" by (simp add: sample_trips_def)
  show ?thesis
  proof (intro conjI)
    show "departuresByMinute (loadStationDemand sample_trips sample_state) ! 510
       = [\<lparr>start_station_id = ''A'', end_station_id = ''B'',
           started_at = Date 30600000, ended_at = Date 31200000\<rparr>]"
      unfolding d by (simp add: sample_trips_def minutesSinceMidnight_Date)
    show "arrivalsByMinute (loadStationDemand sample_trips sample_state) ! 10
       = [\<lparr>start_station_id = ''Z'', end_station_id = ''A'',
           started_at = Date 85800000, ended_at = Date 87000000\<rparr>]"
      unfolding a by (simp add: sample_trips_def minutesSinceMidnight_Date)
    show "sum_list (map length (departuresByMinute (loadStationDemand sample_trips sample_state))) = 2"
      "sum_list (map length (arrivalsByMinute (loadStationDemand sample_trips sample_state))) = 2"
      using inst len by simp_all
    show "trips (loadStationDemand sample_trips sample_state) = sample_trips"
      using inst by simp
  qed (rule sample_state_buckets sample_trips_all_valid)+
qed

subsection \<open>C4: one traffic record per station\<close>

text \<open>
  Claim C4. \<^verbatim>\<open>filteredStations\<close> has one record per station of the registry, in
  order. The record keeps the station's id, name and coordinates; its arrivals are the
  value the current arrivals map has for the station's id, or 0 when the map has no entry
  for it, its departures likewise from the current departures map, and its
  \<open>totalTraffic\<close> is their sum. With the filter at \<open>-1\<close> the two current maps are the
  stored all-day maps, which can be any two maps. The same holds for the record built from
  any two maps and any station: present in both maps with counts \<open>a\<close> and \<open>d\<close> it gets
  \<open>a\<close>, \<open>d\<close> and \<open>a + d\<close>; absent from both it gets three zeros.
\<close>

theorem traffic_records_per_station:
  "length (filteredStations s) = length (stations s)
   \<and> (\<forall>i < length (stations s).
         station_id (filteredStations s ! i) = station_id (stations s ! i)
       \<and> station_name (filteredStations s ! i) = station_name (stations s ! i)
       \<and> Lat (filteredStations s ! i) = Lat (stations s ! i)
       \<and> Long (filteredStations s ! i) = Long (stations s ! i)
       \<and> station_arrivals (filteredStations s ! i)
           = (case map_of (filteredArrivals s) (station_id (stations s ! i)) of
                None \<Rightarrow> 0 | Some n \<Rightarrow> n)
       \<and> station_departures (filteredStations s ! i)
           = (case map_of (filteredDepartures s) (station_id (stations s ! i)) of
                None \<Rightarrow> 0 | Some n \<Rightarrow> n)
       \<and> totalTraffic (filteredStations s ! i)
           = station_arrivals (filteredStations s ! i)
             + station_departures (filteredStations s ! i))
   \<and> (timeFilter s = - 1 \<longrightarrow>
         filteredArrivals s = arrivals s \<and> filteredDepartures s = departures s)
   \<and> station_id (traffic_record arrivalsMap departuresMap st) = station_id st
   \<and> station_name (traffic_record arrivalsMap departuresMap st) = station_name st
   \<and> Lat (traffic_record arrivalsMap departuresMap st) = Lat st
   \<and> Long (traffic_record arrivalsMap departuresMap st) = Long st
   \<and> station_arrivals (traffic_record arrivalsMap departuresMap st)
       = (case map_of arrivalsMap (station_id st) of None \<Rightarrow> 0 | Some n \<Rightarrow> n)
   \<and> station_departures (traffic_record arrivalsMap departuresMap st)
       = (case map_of departuresMap (station_id st) of None \<Rightarrow> 0 | Some n \<Rightarrow> n)
   \<and> totalTraffic (traffic_record arrivalsMap departuresMap st)
       = station_arrivals (traffic_record arrivalsMap departuresMap st)
         + station_departures (traffic_record arrivalsMap departuresMap st)
   \<and> (map_of arrivalsMap (station_id st) = Some a \<and> map_of departuresMap (station_id st) = Some d
        \<longrightarrow> station_arrivals (traffic_record arrivalsMap departuresMap st) = a
          \<and> station_departures (traffic_record arrivalsMap departuresMap st) = d
          \<and> totalTraffic (traffic_record arrivalsMap departuresMap st) = a + d)
   \<and> (map_of arrivalsMap (station_id st) = None \<and> map_of departuresMap (station_id st) = None
        \<longrightarrow> station_arrivals (traffic_record arrivalsMap departuresMap st) = 0
          \<and> station_departures (traffic_record arrivalsMap departuresMap st) = 0
          \<and> totalTraffic (traffic_record arrivalsMap departuresMap st) = 0)"
proof -
  have rec: "station_id (traffic_record am dm x) = station_id x"
    "station_name (traffic_record am dm x) = station_name x"
    "Lat (traffic_record am dm x) = Lat x"
    "Long (traffic_record am dm x) = Long x"
    "station_arrivals (traffic_record am dm x)
       = (case map_of am (station_id x) of None \<Rightarrow> 0 | Some n \<Rightarrow> n)"
    "station_departures (traffic_record am dm x)
       = (case map_of dm (station_id x) of None \<Rightarrow> 0 | Some n \<Rightarrow> n)"
    "totalTraffic (traffic_record am dm x)
       = station_arrivals (traffic_record am dm x) + station_departures (traffic_record am dm x)"
    for am dm x
    by (simp_all add: traffic_record_def Let_def nullish_def map_get_def)
  have nth: "filteredStations s ! i
      = traffic_record (filteredArrivals s) (filteredDepartures s) (stations s ! i)"
    if "i < length (stations s)" for i
    using that by (simp add: filteredStations_def)
  have len: "length (filteredStations s) = length (stations s)"
    by (simp add: filteredStations_def)
  have unf: "timeFilter s = - 1 \<longrightarrow>
         filteredArrivals s = arrivals s \<and> filteredDepartures s = departures s"
    by (simp add: filteredArrivals_def filteredDepartures_def)
  show ?thesis
    by (intro conjI allI impI len unf) (simp_all add: nth rec)
qed

theorem traffic_records_per_station_witness:
  "(0::nat) < length (stations sample_counts_state)
   \<and> timeFilter sample_counts_state = - 1
   \<and> station_id (stations sample_counts_state ! 0) = ''A''
   \<and> filteredArrivals sample_counts_state = [(''A'', 2)]
   \<and> filteredDepartures sample_counts_state = [(''B'', 7), (''A'', 3)]
   \<and> length (filteredStations sample_counts_state) = 1
   \<and> station_id (filteredStations sample_counts_state ! 0) = ''A''
   \<and> station_arrivals (filteredStations sample_counts_state ! 0) = 2
   \<and> station_departures (filteredStations sample_counts_state ! 0) = 3
   \<and> totalTraffic (filteredStations sample_counts_state ! 0) = 5
   \<and> map_of [(''A'', 2::nat)] (station_id sample_station) = Some 2
   \<and> map_of [(''B'', 7), (''A'', 3::nat)] (station_id sample_station) = Some 3
   \<and> totalTraffic (traffic_record [(''A'', 2)] [(''B'', 7), (''A'', 3)] sample_station) = 5
   \<and> map_of [(''B'', 7::nat)] (station_id sample_station) = None
   \<and> totalTraffic (traffic_record [(''B'', 7)] [(''B'', 7)] sample_station) = 0"
proof -
  note hit = traffic_records_per_station
    [of sample_counts_state "[(''A'', 2)]" "[(''B'', 7), (''A'', 3)]" sample_station 2 3]
  note miss = traffic_records_per_station
    [of sample_counts_state "[(''B'', 7)]" "[(''B'', 7)]" sample_station]
  have h: "(0::nat) < length (stations sample_counts_state)"
    by (simp add: sample_counts_state_def sample_state_def)
  have tf: "timeFilter sample_counts_state = - 1"
    by (simp add: sample_counts_state_def sample_state_def initial_state_def)
  have sid: "station_id (stations sample_counts_state ! 0) = ''A''"
    by (simp add: sample_counts_state_def sample_state_def sample_station_def)
  have ar: "arrivals sample_counts_state = [(''A'', 2)]"
    and de: "departures sample_counts_state = [(''B'', 7), (''A'', 3)]"
    by (simp_all add: sample_counts_state_def)
  have ma: "map_of [(''A'', 2::nat)] (station_id sample_station) = Some 2"
    and md: "map_of [(''B'', 7), (''A'', 3::nat)] (station_id sample_station) = Some 3"
    and mn: "map_of [(''B'', 7::nat)] (station_id sample_station) = None"
    by (simp_all add: sample_station_def)
  note unf = hit [THEN conjunct2, THEN conjunct2, THEN conjunct1, rule_format, OF tf]
  have fa: "filteredArrivals sample_counts_state = [(''A'', 2)]"
    using unf ar by simp
  have fd: "filteredDepartures sample_counts_state = [(''B'', 7), (''A'', 3)]"
    using unf de by simp
  note row = hit [THEN conjunct2, THEN conjunct1, rule_format, OF h]
  have len: "length (filteredStations sample_counts_state) = 1"
    using hit [THEN conjunct1] by (simp add: sample_counts_state_def sample_state_def)
  have r1: "station_id (filteredStations sample_counts_state ! 0) = ''A''"
    using row sid by simp
  have r2: "station_arrivals (filteredStations sample_counts_state ! 0) = 2"
    using row by (simp add: sid fa)
  have r3: "station_departures (filteredStations sample_counts_state ! 0) = 3"
    using row by (simp add: sid fd)
  have r4: "totalTraffic (filteredStations sample_counts_state ! 0) = 5"
    using row r2 r3 by simp
  have t1: "totalTraffic (traffic_record [(''A'', 2)] [(''B'', 7), (''A'', 3)] sample_station) = 5"
    using hit ma md by simp
  have t2: "totalTraffic (traffic_record [(''B'', 7)] [(''B'', 7)] sample_station) = 0"
    using miss mn by simp
  from h tf sid fa fd len r1 r2 r3 r4 ma md t1 mn t2 show ?thesis
    by (intro conjI)
qed

subsection \<open>C5: the unfiltered maps agree with counting over all buckets\<close>

text \<open>
  Claim C5. After \<^verbatim>\<open>loadStationDemand\<close> has run on rows with valid timestamps from
  empty buckets, and with the filter at \<open>-1\<close>, the departures map in use is the rollup
  of the full trip collection, and it agrees with flattening all 1440 departure buckets
  and counting per station id: every lookup gives the same result as in the rollup of the
  flattened buckets, the count of each station is the number of flattened trips starting
  there, and the counts add up to the number of flattened trips, which is the number of
  rows. Likewise for arrivals.
\<close>

theorem unfiltered_equals_all_buckets:
  assumes "departuresByMinute s = replicate 1440 []" "arrivalsByMinute s = replicate 1440 []"
    "\<forall>t \<in> set rows. valid_trip t" "timeFilter s = - 1" "s' = loadStationDemand rows s"
  shows "filteredDepartures s' = d3_rollup rows length start_station_id
     \<and> filteredArrivals s' = d3_rollup rows length end_station_id
     \<and> (\<forall>k. map_get (filteredDepartures s') k
             = map_get (d3_rollup (concat (departuresByMinute s')) length start_station_id) k)
     \<and> (\<forall>k. map_get (filteredArrivals s') k
             = map_get (d3_rollup (concat (arrivalsByMinute s')) length end_station_id) k)
     \<and> (\<forall>k. nullish (map_get (filteredDepartures s') k) 0
             = length (filter (\<lambda>t. start_station_id t = k) (concat (departuresByMinute s'))))
     \<and> (\<forall>k. nullish (map_get (filteredArrivals s') k) 0
             = length (filter (\<lambda>t. end_station_id t = k) (concat (arrivalsByMinute s'))))
     \<and> sum_list (map snd (filteredDepartures s')) = length (concat (departuresByMinute s'))
     \<and> sum_list (map snd (filteredArrivals s')) = length (concat (arrivalsByMinute s'))
     \<and> length (concat (departuresByMinute s')) = length rows
     \<and> length (concat (arrivalsByMinute s')) = length rows"
proof -
  note ld = loadStationDemand_from_empty [OF assms(1,2,3), folded assms(5)]
  have vs: "\<forall>t \<in> set rows. started_at t \<noteq> InvalidDate"
    and ve: "\<forall>t \<in> set rows. ended_at t \<noteq> InvalidDate"
    using assms(3) by (simp_all add: valid_trip_def)
  have tf: "timeFilter s' = - 1" using ld(6) assms(4) by simp
  have fd: "filteredDepartures s' = d3_rollup rows length start_station_id"
    by (simp add: filteredDepartures_def tf ld)
  have fa: "filteredArrivals s' = d3_rollup rows length end_station_id"
    by (simp add: filteredArrivals_def tf ld)
  have cd: "length (filter P (concat (departuresByMinute s'))) = length (filter P rows)" for P
    unfolding ld using vs by (rule pushed_empty_count)
  have ca: "length (filter P (concat (arrivalsByMinute s'))) = length (filter P rows)" for P
    unfolding ld using ve by (rule pushed_empty_count)
  have ld': "length (concat (departuresByMinute s')) = length rows"
    using cd [of "\<lambda>_. True"] by simp
  have la': "length (concat (arrivalsByMinute s')) = length rows"
    using ca [of "\<lambda>_. True"] by simp
  show ?thesis
  proof (intro conjI allI)
    show "filteredDepartures s' = d3_rollup rows length start_station_id" by (rule fd)
    show "filteredArrivals s' = d3_rollup rows length end_station_id" by (rule fa)
    show "map_get (filteredDepartures s') k
             = map_get (d3_rollup (concat (departuresByMinute s')) length start_station_id) k"
      for k unfolding fd by (rule map_get_rollup_same_counts) (simp only: cd)
    show "map_get (filteredArrivals s') k
             = map_get (d3_rollup (concat (arrivalsByMinute s')) length end_station_id) k"
      for k unfolding fa by (rule map_get_rollup_same_counts) (simp only: ca)
    show "nullish (map_get (filteredDepartures s') k) 0
             = length (filter (\<lambda>t. start_station_id t = k) (concat (departuresByMinute s')))"
      for k unfolding fd by (simp only: map_get_rollup_count cd)
    show "nullish (map_get (filteredArrivals s') k) 0
             = length (filter (\<lambda>t. end_station_id t = k) (concat (arrivalsByMinute s')))"
      for k unfolding fa by (simp only: map_get_rollup_count ca)
    show "sum_list (map snd (filteredDepartures s')) = length (concat (departuresByMinute s'))"
      unfolding fd by (simp only: total_d3_rollup ld')
    show "sum_list (map snd (filteredArrivals s')) = length (concat (arrivalsByMinute s'))"
      unfolding fa by (simp only: total_d3_rollup la')
    show "length (concat (departuresByMinute s')) = length rows" by (rule ld')
    show "length (concat (arrivalsByMinute s')) = length rows" by (rule la')
  qed
qed

theorem unfiltered_equals_all_buckets_witness:
  "departuresByMinute sample_state = replicate 1440 []
   \<and> arrivalsByMinute sample_state = replicate 1440 []
   \<and> list_all valid_trip sample_trips
   \<and> timeFilter sample_state = - 1
   \<and> filteredDepartures (loadStationDemand sample_trips sample_state) = [(''A'', 1), (''Z'', 1)]
   \<and> filteredArrivals (loadStationDemand sample_trips sample_state) = [(''B'', 1), (''A'', 1)]
   \<and> nullish (map_get (filteredDepartures (loadStationDemand sample_trips sample_state)) ''Z'') 0
       = length (filter (\<lambda>t. start_station_id t = ''Z'')
           (concat (departuresByMinute (loadStationDemand sample_trips sample_state))))
   \<and> length (concat (departuresByMinute (loadStationDemand sample_trips sample_state))) = 2"
proof -
  note inst = unfiltered_equals_all_buckets
    [OF sample_state_buckets sample_trips_valid sample_state_unfiltered refl]
  have rd: "d3_rollup sample_trips length start_station_id = [(''A'', 1), (''Z'', 1)]"
    by (simp add: d3_rollup_def d3_group_def sample_trips_def)
  have ra: "d3_rollup sample_trips length end_station_id = [(''B'', 1), (''A'', 1)]"
    by (simp add: d3_rollup_def d3_group_def sample_trips_def)
  have len: "length sample_trips = 2" by (simp add: sample_trips_def)
  show ?thesis
  proof (intro conjI)
    show "filteredDepartures (loadStationDemand sample_trips sample_state)
          = [(''A'', 1), (''Z'', 1)]"
      using inst rd by simp
    show "filteredArrivals (loadStationDemand sample_trips sample_state)
          = [(''B'', 1), (''A'', 1)]"
      using inst ra by simp
    show "nullish (map_get (filteredDepartures (loadStationDemand sample_trips sample_state)) ''Z'') 0
       = length (filter (\<lambda>t. start_station_id t = ''Z'')
           (concat (departuresByMinute (loadStationDemand sample_trips sample_state))))"
      using inst by blast
    show "length (concat (departuresByMinute (loadStationDemand sample_trips sample_state))) = 2"
      using inst len by simp
  qed (rule sample_state_buckets sample_trips_all_valid sample_state_unfiltered)+
qed

subsection \<open>C6: filter values outside the documented range\<close>

text \<open>
  Claim C6, as the code has it. \<^verbatim>\<open>filterByMinute\<close> does not check its argument. For a
  filter value \<open>v\<close> above 1440 and at most \<open>2^53 - 1380\<close> (9007199254739612), or from
  \<open>-60\<close> up to \<open>-2\<close>, the sums \<open>v - 60\<close>, \<open>v - 60 + 1440\<close> and \<open>v + 60\<close> are
  computed exactly, and the function returns the trips of the window of the center minute
  \<open>v mod 1440\<close>, a minute in \<open>[0, 1439]\<close>.
\<close>

theorem out_of_range_filter_wraps:
  assumes "(1440 < v \<and> v \<le> 9007199254739612) \<or> (- 60 \<le> v \<and> v < - 1)"
  shows "exact_double v \<and> exact_double (v - 60) \<and> exact_double (v - 60 + 1440)
     \<and> exact_double (v + 60)
     \<and> 0 \<le> v mod 1440 \<and> v mod 1440 \<le> 1439
     \<and> filterByMinute all_trips tripsByMinute v
         = filterByMinute all_trips tripsByMinute (v mod 1440)"
proof -
  have v: "- 60 \<le> v" "v \<noteq> - 1" "v \<le> 9007199254739612" using assms by linarith+
  have ex: "exact_double v" "exact_double (v - 60)" "exact_double (v - 60 + 1440)"
    "exact_double (v + 60)"
    unfolding exact_double_def using v(1,3) by linarith+
  have r: "0 \<le> v mod 1440" "v mod 1440 \<le> 1439"
    using mod1440_range [of v] by linarith+
  then have "v mod 1440 \<noteq> - 1" by linarith
  then have "filterByMinute all_trips tripsByMinute (v mod 1440)
      = concat (window_slices tripsByMinute (v mod 1440))"
    by (rule filterByMinute_window)
  moreover have "filterByMinute all_trips tripsByMinute v
      = concat (window_slices tripsByMinute v)"
    using v(2) by (rule filterByMinute_window)
  moreover have "window_slices tripsByMinute v = window_slices tripsByMinute (v mod 1440)"
    using v(1) by (rule window_slices_wraps)
  ultimately have eq: "filterByMinute all_trips tripsByMinute v
         = filterByMinute all_trips tripsByMinute (v mod 1440)"
    by (simp only:)
  from ex r eq show ?thesis
    by (intro conjI)
qed

theorem out_of_range_filter_wraps_witness:
  "(((1440::int) < 1500 \<and> (1500::int) \<le> 9007199254739612)
      \<or> (- 60 \<le> (1500::int) \<and> (1500::int) < - 1))
   \<and> filterByMinute [] (replicate 1440 [7::nat]) 1500
       = filterByMinute [] (replicate 1440 [7]) 60
   \<and> (((1440::int) < 9007199254739612 \<and> (9007199254739612::int) \<le> 9007199254739612)
      \<or> (- 60 \<le> (9007199254739612::int) \<and> (9007199254739612::int) < - 1))
   \<and> exact_double (9007199254739612 - 60 + 1440)
   \<and> filterByMinute [] (replicate 1440 [7::nat]) 9007199254739612
       = filterByMinute [] (replicate 1440 [7]) 92"
proof -
  have h: "((1440::int) < 1500 \<and> (1500::int) \<le> 9007199254739612)
      \<or> (- 60 \<le> (1500::int) \<and> (1500::int) < - 1)" by simp
  have g: "((1440::int) < 9007199254739612 \<and> (9007199254739612::int) \<le> 9007199254739612)
      \<or> (- 60 \<le> (9007199254739612::int) \<and> (9007199254739612::int) < - 1)" by simp
  have m: "(1500::int) mod 1440 = 60" by simp
  have n: "(9007199254739612::int) mod 1440 = 92" by simp
  note a = out_of_range_filter_wraps [OF h, of "[]" "replicate 1440 [7::nat]"]
  note b = out_of_range_filter_wraps [OF g, of "[]" "replicate 1440 [7::nat]"]
  have a': "filterByMinute [] (replicate 1440 [7::nat]) 1500
       = filterByMinute [] (replicate 1440 [7]) 60"
    using a unfolding m by (elim conjE)
  have b': "filterByMinute [] (replicate 1440 [7::nat]) 9007199254739612
       = filterByMinute [] (replicate 1440 [7]) 92"
    using b unfolding n by (elim conjE)
  have b'': "exact_double (9007199254739612 - 60 + 1440)"
    using b by (elim conjE)
  from h a' g b'' b' show ?thesis
    by (intro conjI)
qed

text \<open>
  Claim C6 as stated asks for an invalid-argument condition at every value outside
  \<open>[-1, 1440]\<close>. At 1500 the buckets selected are those at the indices \<open>0..120\<close>,
  and on 1440 buckets holding one trip each the function returns 121 trips.
\<close>

theorem filter_1500_returns_a_window:
  "window_slices [0..<1440] 1500 = [0..<121]
   \<and> filterByMinute [] (replicate 1440 [7::nat]) 1500 = replicate 121 7"
proof (rule conjI [OF identity_window_1500])
  have "filterByMinute [] (replicate 1440 [7::nat]) 1500
        = concat (window_slices (replicate 1440 [7::nat]) 1500)"
    by (rule filterByMinute_window) simp
  also have "window_slices (replicate 1440 [7::nat]) 1500
        = window_slices (replicate 1440 [7]) (1500 mod 1440)"
    by (rule window_slices_wraps) simp
  also have "(1500::int) mod 1440 = int 60" by simp
  also have "window_slices (replicate 1440 [7::nat]) (int 60)
        = map (nth (replicate 1440 [7])) [60 - 60 ..< Suc (60 + 60)]"
    by (rule window_slices_mid) simp_all
  also have "\<dots> = replicate (length [60 - 60 ..< Suc (60 + 60)]) [7]"
    by (rule map_nth_replicate) (simp only: set_upt, auto)
  also have "length [60 - 60 ..< Suc (60 + 60)] = 121"
    by (simp only: length_upt)
  finally show "filterByMinute [] (replicate 1440 [7::nat]) 1500 = replicate 121 7"
    by (simp only: concat_replicate_single)
qed

subsection \<open>C7: a trip of an unknown station is counted but not shown\<close>



subsection \<open>C8: bucket indices stay in range\<close>

text \<open>
  Claim C8. Whenever \<^verbatim>\<open>minutesSinceMidnight\<close> yields a number, it lies in
  \<open>[0, 1439]\<close>, and it yields a number for every valid date; so the loop over rows with
  valid timestamps never indexes a 1440-bucket array outside its range and raises no
  error. For every filter value from \<open>-60\<close> upwards, which covers the slider's range
  \<open>-1\<close> to \<open>1440\<close>, the two bounds computed by \<^verbatim>\<open>filterByMinute\<close> lie in
  \<open>[0, 1439]\<close>.
\<close>

theorem bucket_indices_in_range:
  "(\<forall>d i. minutesSinceMidnight d = Some i \<longrightarrow> 0 \<le> i \<and> i \<le> 1439)
   \<and> (\<forall>d. d \<noteq> InvalidDate \<longrightarrow> minutesSinceMidnight d \<noteq> None)
   \<and> (\<forall>rows (dep :: trip list list) (arr :: trip list list).
         (\<forall>t \<in> set rows. valid_trip t) \<and> length dep = 1440 \<and> length arr = 1440
         \<longrightarrow> fst (bucket_loop rows (dep, arr)) = None)
   \<and> (\<forall>minute. - 60 \<le> minute \<longrightarrow>
         0 \<le> minMinute minute \<and> minMinute minute \<le> 1439
         \<and> 0 \<le> maxMinute minute \<and> maxMinute minute \<le> 1439)"
proof (intro conjI allI impI)
  fix d i assume "minutesSinceMidnight d = Some i"
  then have "0 \<le> i \<and> i < 1440" by (rule minutesSinceMidnight_bounds)
  then show "0 \<le> i" "i \<le> 1439" by simp_all
next
  fix d :: date assume "d \<noteq> InvalidDate"
  then show "minutesSinceMidnight d \<noteq> None"
    by (cases d) (simp_all add: minutesSinceMidnight_Date)
next
  fix rows and dep arr :: "trip list list"
  assume "(\<forall>t \<in> set rows. valid_trip t) \<and> length dep = 1440 \<and> length arr = 1440"
  then show "fst (bucket_loop rows (dep, arr)) = None"
    by (simp add: bucket_loop_valid)
next
  fix minute :: int assume m: "- 60 \<le> minute"
  from minMinute_range [OF m] show "0 \<le> minMinute minute" "minMinute minute \<le> 1439"
    by simp_all
  from maxMinute_range [OF m] show "0 \<le> maxMinute minute" "maxMinute minute \<le> 1439"
    by simp_all
qed

theorem bucket_indices_in_range_witness:
  "minutesSinceMidnight (Date 30600000) = Some 510
   \<and> (0::int) \<le> 510 \<and> (510::int) \<le> 1439
   \<and> Date 30600000 \<noteq> InvalidDate \<and> minutesSinceMidnight (Date 30600000) \<noteq> None
   \<and> list_all valid_trip [\<lparr>start_station_id = ''A'', end_station_id = ''B'',
                             started_at = Date 30600000, ended_at = Date 31200000\<rparr>]
   \<and> length (replicate 1440 ([] :: trip list)) = 1440
   \<and> fst (bucket_loop [\<lparr>start_station_id = ''A'', end_station_id = ''B'',
                          started_at = Date 30600000, ended_at = Date 31200000\<rparr>]
              (replicate 1440 [], replicate 1440 [])) = None
   \<and> - 60 \<le> (1440::int)
   \<and> 0 \<le> minMinute 1440 \<and> minMinute 1440 \<le> 1439
   \<and> 0 \<le> maxMinute 1440 \<and> maxMinute 1440 \<le> 1439"
proof -
  note inst = bucket_indices_in_range
  let ?t = "\<lparr>start_station_id = ''A'', end_station_id = ''B'',
             started_at = Date 30600000, ended_at = Date 31200000\<rparr>"
  have a: "minutesSinceMidnight (Date 30600000) = Some 510"
    by (simp add: minutesSinceMidnight_Date)
  have b: "Date 30600000 \<noteq> InvalidDate" by simp
  have c: "(\<forall>t \<in> set [?t]. valid_trip t) \<and> length (replicate 1440 ([] :: trip list)) = 1440
           \<and> length (replicate 1440 ([] :: trip list)) = 1440"
    by (simp add: valid_trip_def)
  have d: "- 60 \<le> (1440::int)" by simp
  note r1 = inst [THEN conjunct1, rule_format, OF a]
  note r2 = inst [THEN conjunct2, THEN conjunct1, rule_format, OF b]
  note r3 = inst [THEN conjunct2, THEN conjunct2, THEN conjunct1, rule_format, OF c]
  note r4 = inst [THEN conjunct2, THEN conjunct2, THEN conjunct2, rule_format, OF d]
  have c': "list_all valid_trip [?t]" by (simp add: valid_trip_def)
  from a b c c' d r1 r2 r3 r4 show ?thesis
    by (elim conjE) (intro conjI, assumption+)
qed

subsection \<open>C9: the aggregation depends only on the buckets and the window\<close>

text \<open>
  Claim C9. The two filtered maps are functions of the bucket arrays and the filter value
  (and, at \<open>-1\<close>, of the two stored all-day maps): two states that agree on these give
  equal maps, whatever else differs. In particular two runs on the same state give equal
  maps.
\<close>

theorem aggregation_depends_only_on_buckets_and_window:
  assumes "departuresByMinute s1 = departuresByMinute s2"
    "arrivalsByMinute s1 = arrivalsByMinute s2"
    "timeFilter s1 = timeFilter s2"
    "timeFilter s1 = - 1 \<longrightarrow> departures s1 = departures s2 \<and> arrivals s1 = arrivals s2"
  shows "filteredDepartures s1 = filteredDepartures s2
       \<and> filteredArrivals s1 = filteredArrivals s2"
  using assms by (auto simp: filteredDepartures_def filteredArrivals_def filterByMinute_def)

theorem aggregation_depends_only_on_buckets_and_window_witness:
  "departuresByMinute ((loadStationDemand sample_trips sample_state)\<lparr>timeFilter := 510\<rparr>)
     = departuresByMinute ((loadStationDemand sample_trips sample_state)
         \<lparr>timeFilter := 510, trips := [], stations := [], departures := []\<rparr>)
   \<and> timeFilter ((loadStationDemand sample_trips sample_state)\<lparr>timeFilter := 510\<rparr>)
     = timeFilter ((loadStationDemand sample_trips sample_state)
         \<lparr>timeFilter := 510, trips := [], stations := [], departures := []\<rparr>)
   \<and> filteredDepartures ((loadStationDemand sample_trips sample_state)\<lparr>timeFilter := 510\<rparr>)
     = filteredDepartures ((loadStationDemand sample_trips sample_state)
         \<lparr>timeFilter := 510, trips := [], stations := [], departures := []\<rparr>)
   \<and> filteredArrivals ((loadStationDemand sample_trips sample_state)\<lparr>timeFilter := 510\<rparr>)
     = filteredArrivals ((loadStationDemand sample_trips sample_state)
         \<lparr>timeFilter := 510, trips := [], stations := [], departures := []\<rparr>)"
proof -
  let ?s1 = "(loadStationDemand sample_trips sample_state)\<lparr>timeFilter := 510\<rparr>"
  let ?s2 = "(loadStationDemand sample_trips sample_state)
         \<lparr>timeFilter := 510, trips := [], stations := [], departures := []\<rparr>"
  have h1: "departuresByMinute ?s1 = departuresByMinute ?s2" by simp
  have h2: "arrivalsByMinute ?s1 = arrivalsByMinute ?s2" by simp
  have h3: "timeFilter ?s1 = timeFilter ?s2" by simp
  have h4: "timeFilter ?s1 = - 1 \<longrightarrow> departures ?s1 = departures ?s2 \<and> arrivals ?s1 = arrivals ?s2"
    by simp
  note inst = aggregation_depends_only_on_buckets_and_window [OF h1 h2 h3 h4]
  from h1 h3 inst show ?thesis
    by (elim conjE) (intro conjI, assumption+)
qed

subsection \<open>C10: the slider's largest value\<close>

text \<open>
  Claim C10. The filter value 1440, the largest the slider produces, is handled like
  center minute 0: for every bucket array \<^verbatim>\<open>filterByMinute\<close> returns the same trips for
  1440 as for 0, and on an array of length 1440 these are the trips of the buckets
  \<open>1380..1439\<close> followed by \<open>0..60\<close>.
\<close>

theorem filter_value_1440_is_center_0:
  "filterByMinute all_trips tripsByMinute 1440 = filterByMinute all_trips tripsByMinute 0
   \<and> (length tripsByMinute = 1440 \<longrightarrow>
        filterByMinute all_trips tripsByMinute 1440
          = concat (map (nth tripsByMinute) ([1380 ..< 1440] @ [0 ..< 61])))"
proof -
  have w: "window_slices tripsByMinute 1440 = window_slices tripsByMinute 0"
  proof -
    have "(1440::int) mod 1440 = 0" by simp
    with window_slices_wraps [of 1440 tripsByMinute] show ?thesis by simp
  qed
  have "filterByMinute all_trips tripsByMinute 1440 = concat (window_slices tripsByMinute 1440)"
    by (rule filterByMinute_window) simp
  moreover have "filterByMinute all_trips tripsByMinute 0
      = concat (window_slices tripsByMinute 0)"
    by (rule filterByMinute_window) simp
  ultimately have eq: "filterByMinute all_trips tripsByMinute 1440
      = filterByMinute all_trips tripsByMinute 0"
    by (simp only: w)
  show ?thesis
  proof (intro conjI impI)
    show "filterByMinute all_trips tripsByMinute 1440
      = filterByMinute all_trips tripsByMinute 0" by (rule eq)
  next
    assume len: "length tripsByMinute = 1440"
    from \<open>filterByMinute all_trips tripsByMinute 0 = concat (window_slices tripsByMinute 0)\<close>
    show "filterByMinute all_trips tripsByMinute 1440
          = concat (map (nth tripsByMinute) ([1380 ..< 1440] @ [0 ..< 61]))"
      by (simp only: eq window_slices_0 [OF len])
  qed
qed

theorem filter_value_1440_is_center_0_witness:
  "length (replicate 1440 [7::nat]) = 1440
   \<and> filterByMinute [] (replicate 1440 [7::nat]) 1440
       = filterByMinute [] (replicate 1440 [7]) 0
   \<and> filterByMinute [] (replicate 1440 [7::nat]) 1440
       = concat (map (nth (replicate 1440 [7])) ([1380 ..< 1440] @ [0 ..< 61]))"
proof -
  have h: "length (replicate 1440 [7::nat]) = 1440"
    by (simp only: length_replicate)
  note inst = filter_value_1440_is_center_0 [of "[]" "replicate 1440 [7::nat]"]
  from h inst [THEN conjunct1] inst [THEN conjunct2, rule_format, OF h]
  show ?thesis by (intro conjI)
qed

end
